theory Spec2Isabelle
  imports Complex_Main "HOL-Library.List_Lexorder" "HOL-Library.Sublist"
begin

section \<open>Python strings\<close>

text \<open>
  A Python \<open>str\<close> is a sequence of Unicode code points, and \<open>len\<close> counts code points.
  Code points are natural numbers here; an ASCII literal is written with \<open>ascii\<close>, and a
  character outside ASCII by its number (\<open>243\<close> is the letter o with acute accent).
\<close>

type_synonym codepoint = nat
type_synonym ustr = "codepoint list"

definition ascii :: "string \<Rightarrow> ustr" where
  "ascii s = map of_char s"

text \<open>
  \<open>str.isspace\<close>, which is also the class \<open>\s\<close> of \<open>re\<close> on \<open>str\<close> patterns and the set
  that \<open>str.strip()\<close> removes: the complete list of CPython.
\<close>

definition isspace :: "codepoint \<Rightarrow> bool" where
  "isspace c \<longleftrightarrow>
     (9 \<le> c \<and> c \<le> 13) \<or> (28 \<le> c \<and> c \<le> 32) \<or> c = 133 \<or> c = 160 \<or> c = 5760 \<or>
     (8192 \<le> c \<and> c \<le> 8202) \<or> c = 8232 \<or> c = 8233 \<or> c = 8239 \<or> c = 8287 \<or> c = 12288"

text \<open>
  The rest of the Unicode database is large, so the part beyond Latin-1 is a parameter of
  the model: \<open>str_lower\<close> is \<open>str.lower()\<close> on whole strings (it is not character-wise:
  one code point lowers to two, and capital sigma depends on its context), \<open>isalnum_tab\<close>
  is \<open>str.isalnum\<close> and \<open>isdecimal_tab\<close> is the category Nd, both consulted from U+0100 on.
  Below U+0100 the classes \<open>\w\<close> and \<open>\d\<close> are written out.
\<close>

record unicode =
  str_lower :: "ustr \<Rightarrow> ustr"
  isalnum_tab :: "codepoint \<Rightarrow> bool"
  isdecimal_tab :: "codepoint \<Rightarrow> bool"

definition latin1_word :: "codepoint \<Rightarrow> bool" where
  "latin1_word c \<longleftrightarrow>
     (48 \<le> c \<and> c \<le> 57) \<or> (65 \<le> c \<and> c \<le> 90) \<or> c = 95 \<or> (97 \<le> c \<and> c \<le> 122) \<or>
     c = 170 \<or> c = 178 \<or> c = 179 \<or> c = 181 \<or> c = 185 \<or> c = 186 \<or>
     (188 \<le> c \<and> c \<le> 190) \<or> (192 \<le> c \<and> c \<le> 214) \<or> (216 \<le> c \<and> c \<le> 246) \<or>
     (248 \<le> c \<and> c \<le> 255)"

definition is_word :: "unicode \<Rightarrow> codepoint \<Rightarrow> bool" where
  "is_word U c = (if c < 256 then latin1_word c else isalnum_tab U c)"

definition is_digit :: "unicode \<Rightarrow> codepoint \<Rightarrow> bool" where
  "is_digit U c = (if c < 256 then 48 \<le> c \<and> c \<le> 57 else isdecimal_tab U c)"

text \<open>
  An instance of the tables for evaluating examples: Basic Latin and Latin-1, and the
  capital I with dot above (U+0130), the one code point whose lower case is two code
  points, \<open>i\<close> followed by the combining dot U+0307. Every other code point from U+0100 on
  is treated as unassigned: caseless and not alphanumeric.
\<close>

definition lower_char :: "codepoint \<Rightarrow> ustr" where
  "lower_char c =
     (if (65 \<le> c \<and> c \<le> 90) \<or> (192 \<le> c \<and> c \<le> 214) \<or> (216 \<le> c \<and> c \<le> 222) then [c + 32]
      else if c = 304 then [105, 775]
      else [c])"

definition latin :: unicode where
  "latin = \<lparr> str_lower = (\<lambda>s. concat (map lower_char s)),
             isalnum_tab = (\<lambda>c. c = 304),
             isdecimal_tab = (\<lambda>c. False) \<rparr>"


section \<open>Text normalisation: \<open>clean_text\<close>\<close>

text \<open>
  \<open>re.sub(r'http\S+|www\S+', '', text)\<close>. The scan goes left to right; at a position
  where \<open>http\<close> or \<open>www\<close> is followed by at least one non-space character the match is
  greedy, so it runs to the end of the run of non-space characters and is deleted, and
  the scan resumes behind it. Everywhere else the character is kept.
\<close>

definition url_at :: "ustr \<Rightarrow> bool" where
  "url_at s \<longleftrightarrow>
     (take 4 s = ascii ''http'' \<and> 4 < length s \<and> \<not> isspace (s ! 4)) \<or>
     (take 3 s = ascii ''www'' \<and> 3 < length s \<and> \<not> isspace (s ! 3))"

function sub_urls :: "ustr \<Rightarrow> ustr" where
  "sub_urls [] = []"
| "sub_urls (c # cs) =
     (if url_at (c # cs) then sub_urls (dropWhile (\<lambda>x. \<not> isspace x) cs)
      else c # sub_urls cs)"
  by pat_completeness auto
termination
  by (relation "measure length") (auto simp: le_imp_less_Suc length_dropWhile_le)

text \<open>
  \<open>re.sub(r'\S+@\S+', '', text)\<close>. A match starts at a non-space character and needs an
  \<open>@\<close> later in the same run of non-space characters, with at least one character of the
  run behind it; both \<open>\S+\<close> are greedy, so the match ends where the run ends.
\<close>

definition email_at :: "ustr \<Rightarrow> bool" where
  "email_at s \<longleftrightarrow>
     (case s of [] \<Rightarrow> False
      | c # cs \<Rightarrow> \<not> isspace c \<and> 64 \<in> set (butlast (takeWhile (\<lambda>x. \<not> isspace x) cs)))"

function sub_emails :: "ustr \<Rightarrow> ustr" where
  "sub_emails [] = []"
| "sub_emails (c # cs) =
     (if email_at (c # cs) then sub_emails (dropWhile (\<lambda>x. \<not> isspace x) cs)
      else c # sub_emails cs)"
  by pat_completeness auto
termination
  by (relation "measure length") (auto simp: le_imp_less_Suc length_dropWhile_le)

text \<open>\<open>re.sub(r'\d+', '', text)\<close>: every digit goes.\<close>

definition sub_digits :: "unicode \<Rightarrow> ustr \<Rightarrow> ustr" where
  "sub_digits U s = filter (\<lambda>c. \<not> is_digit U c) s"

text \<open>
  \<open>re.sub\<close> with the class \<open>[^\w\s...]\<close>, where the dots stand for the seven accented
  lower-case letters of Spanish (a, e, i, o, u with acute accent, u with diaeresis, n with
  tilde), here by their code points: each character outside the class becomes one space.
\<close>

definition accented :: "codepoint set" where
  "accented = {225, 233, 237, 243, 250, 252, 241}"

definition sub_special :: "unicode \<Rightarrow> ustr \<Rightarrow> ustr" where
  "sub_special U s = map (\<lambda>c. if is_word U c \<or> isspace c \<or> c \<in> accented then c else 32) s"

text \<open>\<open>re.sub(r'\s+', ' ', text)\<close>: each run of white space becomes one space.\<close>

function sub_spaces :: "ustr \<Rightarrow> ustr" where
  "sub_spaces [] = []"
| "sub_spaces (c # cs) =
     (if isspace c then 32 # sub_spaces (dropWhile isspace cs) else c # sub_spaces cs)"
  by pat_completeness auto
termination
  by (relation "measure length") (auto simp: le_imp_less_Suc length_dropWhile_le)

text \<open>\<open>str.strip()\<close>: white space is removed at both ends.\<close>

definition strip :: "ustr \<Rightarrow> ustr" where
  "strip s = rev (dropWhile isspace (rev (dropWhile isspace s)))"

text \<open>
  \<open>clean_text\<close>. The argument is a column value, so it may be \<open>None\<close>; \<open>not text\<close> holds
  for \<open>None\<close> and for the empty string.
\<close>

definition clean_text :: "unicode \<Rightarrow> ustr option \<Rightarrow> ustr" where
  "clean_text U text =
     (case text of
        None \<Rightarrow> []
      | Some s \<Rightarrow>
          if s = [] then []
          else strip (sub_spaces (sub_special U (sub_digits U
                 (sub_emails (sub_urls (str_lower U s)))))))"

subsection \<open>The shape of a normalised text\<close>

text \<open>
  Auxiliary predicates for the proofs: in a \<open>compact\<close> string the only white space is the
  single space U+0020 and no two white-space characters are adjacent; a \<open>clean_char\<close> is a
  space or a non-digit character of the class that \<open>sub_special\<close> keeps.
\<close>

definition apart :: "codepoint \<Rightarrow> codepoint \<Rightarrow> bool" where
  "apart a b \<longleftrightarrow> \<not> (isspace a \<and> isspace b)"

definition compact :: "ustr \<Rightarrow> bool" where
  "compact t \<longleftrightarrow> (\<forall>c\<in>set t. isspace c \<longrightarrow> c = 32) \<and> successively apart t"

definition clean_char :: "unicode \<Rightarrow> codepoint \<Rightarrow> bool" where
  "clean_char U c \<longleftrightarrow> c = 32 \<or> (\<not> isspace c \<and> \<not> is_digit U c \<and> (is_word U c \<or> c \<in> accented))"

section \<open>The vocabulary of the module\<close>

text \<open>
  \<open>STOPWORDS_ES\<close>, a Python set; only membership is used (\<open>list(STOPWORDS_ES)\<close> is handed
  to the vectorizers as their stop list), so it is a list here, without the repetitions
  of the source literal and in code-point order.
\<close>

definition STOPWORDS_ES :: "ustr list" where
  "STOPWORDS_ES = [
    ascii ''a'', ascii ''adem'' @ [225] @ ascii ''s'', ascii ''afirm'' @ [243],
    ascii ''ahora'', ascii ''al'', ascii ''algo'', ascii ''algunas'', ascii ''algunos'',
    ascii ''ante'', ascii ''antes'', ascii ''asegur'' @ [243], ascii ''as'' @ [237],
    ascii ''aunque'', ascii ''a'' @ [241] @ ascii ''adi'' @ [243],
    ascii ''a'' @ [241] @ ascii ''o'', ascii ''a'' @ [241] @ ascii ''os'', ascii ''bien'',
    ascii ''cada'', ascii ''caso'', ascii ''ciento'', ascii ''ciudad'',
    ascii ''coment'' @ [243], ascii ''como'', ascii ''con'', ascii ''contra'', ascii ''cual'',
    ascii ''cuando'', ascii ''cuenta'', ascii ''dar'', ascii ''de'', ascii ''debe'',
    ascii ''decir'', ascii ''del'', ascii ''desde'', ascii ''despu'' @ [233] @ ascii ''s'',
    ascii ''destac'' @ [243], ascii ''dijo'', ascii ''donde'', ascii ''dos'',
    ascii ''durante'', ascii ''d'' @ [237] @ ascii ''a'', ascii ''d'' @ [237] @ ascii ''as'',
    ascii ''e'', ascii ''el'', ascii ''ella'', ascii ''ellas'', ascii ''ellos'',
    ascii ''embargo'', ascii ''en'', ascii ''entonces'', ascii ''entre'', ascii ''era'',
    ascii ''erais'', ascii ''eran'', ascii ''eras'', ascii ''eres'', ascii ''es'',
    ascii ''esa'', ascii ''esas'', ascii ''ese'', ascii ''eso'', ascii ''esos'',
    ascii ''esta'', ascii ''estaba'', ascii ''estabais'', ascii ''estaban'', ascii ''estabas'',
    ascii ''estad'', ascii ''estada'', ascii ''estadas'', ascii ''estado'', ascii ''estados'',
    ascii ''estamos'', ascii ''estando'', ascii ''estar'', ascii ''estaremos'',
    ascii ''estar'' @ [225], ascii ''estar'' @ [225] @ ascii ''n'',
    ascii ''estar'' @ [225] @ ascii ''s'', ascii ''estar'' @ [233],
    ascii ''estar'' @ [233] @ ascii ''is'', ascii ''estar'' @ [237] @ ascii ''a'',
    ascii ''estar'' @ [237] @ ascii ''ais'', ascii ''estar'' @ [237] @ ascii ''amos'',
    ascii ''estar'' @ [237] @ ascii ''an'', ascii ''estar'' @ [237] @ ascii ''as'',
    ascii ''estas'', ascii ''este'', ascii ''estemos'', ascii ''esto'', ascii ''estos'',
    ascii ''estoy'', ascii ''estuve'', ascii ''estuviera'', ascii ''estuvierais'',
    ascii ''estuvieran'', ascii ''estuvieras'', ascii ''estuvieron'', ascii ''estuviese'',
    ascii ''estuvieseis'', ascii ''estuviesen'', ascii ''estuvieses'', ascii ''estuvimos'',
    ascii ''estuviste'', ascii ''estuvisteis'', ascii ''estuvi'' @ [233] @ ascii ''ramos'',
    ascii ''estuvi'' @ [233] @ ascii ''semos'', ascii ''estuvo'', ascii ''est'' @ [225],
    ascii ''est'' @ [225] @ ascii ''bamos'', ascii ''est'' @ [225] @ ascii ''is'',
    ascii ''est'' @ [225] @ ascii ''n'', ascii ''est'' @ [225] @ ascii ''s'',
    ascii ''est'' @ [233], ascii ''est'' @ [233] @ ascii ''is'',
    ascii ''est'' @ [233] @ ascii ''n'', ascii ''est'' @ [233] @ ascii ''s'',
    ascii ''explic'' @ [243], ascii ''expres'' @ [243], ascii ''forma'', ascii ''fue'',
    ascii ''fuera'', ascii ''fuerais'', ascii ''fueran'', ascii ''fueras'', ascii ''fueron'',
    ascii ''fuese'', ascii ''fueseis'', ascii ''fuesen'', ascii ''fueses'', ascii ''fui'',
    ascii ''fuimos'', ascii ''fuiste'', ascii ''fuisteis'',
    ascii ''fu'' @ [233] @ ascii ''ramos'', ascii ''fu'' @ [233] @ ascii ''semos'',
    ascii ''general'', ascii ''ha'', ascii ''haber'', ascii ''habida'', ascii ''habidas'',
    ascii ''habido'', ascii ''habidos'', ascii ''habiendo'', ascii ''habremos'',
    ascii ''habr'' @ [225], ascii ''habr'' @ [225] @ ascii ''n'',
    ascii ''habr'' @ [225] @ ascii ''s'', ascii ''habr'' @ [233],
    ascii ''habr'' @ [233] @ ascii ''is'', ascii ''habr'' @ [237] @ ascii ''a'',
    ascii ''habr'' @ [237] @ ascii ''ais'', ascii ''habr'' @ [237] @ ascii ''amos'',
    ascii ''habr'' @ [237] @ ascii ''an'', ascii ''habr'' @ [237] @ ascii ''as'',
    ascii ''hab'' @ [233] @ ascii ''is'', ascii ''hab'' @ [237] @ ascii ''a'',
    ascii ''hab'' @ [237] @ ascii ''ais'', ascii ''hab'' @ [237] @ ascii ''amos'',
    ascii ''hab'' @ [237] @ ascii ''an'', ascii ''hab'' @ [237] @ ascii ''as'',
    ascii ''hacer'', ascii ''hacia'', ascii ''han'', ascii ''has'', ascii ''hasta'',
    ascii ''hay'', ascii ''haya'', ascii ''hayamos'', ascii ''hayan'', ascii ''hayas'',
    ascii ''hay'' @ [225] @ ascii ''is'', ascii ''he'', ascii ''hecho'', ascii ''hemos'',
    ascii ''hube'', ascii ''hubiera'', ascii ''hubierais'', ascii ''hubieran'',
    ascii ''hubieras'', ascii ''hubieron'', ascii ''hubiese'', ascii ''hubieseis'',
    ascii ''hubiesen'', ascii ''hubieses'', ascii ''hubimos'', ascii ''hubiste'',
    ascii ''hubisteis'', ascii ''hubi'' @ [233] @ ascii ''ramos'',
    ascii ''hubi'' @ [233] @ ascii ''semos'', ascii ''hubo'', ascii ''indic'' @ [243],
    ascii ''inform'' @ [243], ascii ''ir'', ascii ''la'', ascii ''las'', ascii ''le'',
    ascii ''les'', ascii ''lo'', ascii ''los'', ascii ''luego'', ascii ''manera'',
    ascii ''manifest'' @ [243], ascii ''me'', ascii ''medio'', ascii ''menos'', ascii ''mi'',
    ascii ''mientras'', ascii ''mil'', ascii ''millones'', ascii ''mis'', ascii ''misma'',
    ascii ''mismas'', ascii ''mismo'', ascii ''mismos'', ascii ''mucho'', ascii ''muchos'',
    ascii ''muy'', ascii ''m'' @ [225] @ ascii ''s'', ascii ''m'' @ [237],
    ascii ''m'' @ [237] @ ascii ''a'', ascii ''m'' @ [237] @ ascii ''as'',
    ascii ''m'' @ [237] @ ascii ''o'', ascii ''m'' @ [237] @ ascii ''os'', ascii ''nada'',
    ascii ''ni'', ascii ''no'', ascii ''nos'', ascii ''nosotras'', ascii ''nosotros'',
    ascii ''nuestra'', ascii ''nuestras'', ascii ''nuestro'', ascii ''nuestros'',
    ascii ''nueva'', ascii ''nuevo'', ascii ''o'', ascii ''os'', ascii ''otra'',
    ascii ''otras'', ascii ''otro'', ascii ''otros'', ascii ''para'', ascii ''parte'',
    ascii ''pasado'', ascii ''pero'', ascii ''pesos'', ascii ''poco'',
    ascii ''podr'' @ [237] @ ascii ''a'', ascii ''por'', ascii ''porque'', ascii ''primer'',
    ascii ''primera'', ascii ''puede'', ascii ''pueden'', ascii ''pues'', ascii ''punto'',
    ascii ''que'', ascii ''quien'', ascii ''quienes'', ascii ''qu'' @ [233], ascii ''se'',
    ascii ''sea'', ascii ''seamos'', ascii ''sean'', ascii ''seas'', ascii ''segundo'',
    ascii ''seg'' @ [250] @ ascii ''n'', ascii ''ser'', ascii ''seremos'',
    ascii ''ser'' @ [225], ascii ''ser'' @ [225] @ ascii ''n'',
    ascii ''ser'' @ [225] @ ascii ''s'', ascii ''ser'' @ [233],
    ascii ''ser'' @ [233] @ ascii ''is'', ascii ''ser'' @ [237] @ ascii ''a'',
    ascii ''ser'' @ [237] @ ascii ''ais'', ascii ''ser'' @ [237] @ ascii ''amos'',
    ascii ''ser'' @ [237] @ ascii ''an'', ascii ''ser'' @ [237] @ ascii ''as'',
    ascii ''se'' @ [225] @ ascii ''is'', ascii ''se'' @ [241] @ ascii ''al'' @ [243],
    ascii ''sido'', ascii ''siempre'', ascii ''siendo'', ascii ''sin'', ascii ''sobre'',
    ascii ''sois'', ascii ''solo'', ascii ''somos'', ascii ''son'', ascii ''soy'',
    ascii ''su'', ascii ''sus'', ascii ''suya'', ascii ''suyas'', ascii ''suyo'',
    ascii ''suyos'', ascii ''s'' @ [237], ascii ''tambi'' @ [233] @ ascii ''n'', ascii ''tan'',
    ascii ''tanto'', ascii ''te'', ascii ''tendremos'', ascii ''tendr'' @ [225],
    ascii ''tendr'' @ [225] @ ascii ''n'', ascii ''tendr'' @ [225] @ ascii ''s'',
    ascii ''tendr'' @ [233], ascii ''tendr'' @ [233] @ ascii ''is'',
    ascii ''tendr'' @ [237] @ ascii ''a'', ascii ''tendr'' @ [237] @ ascii ''ais'',
    ascii ''tendr'' @ [237] @ ascii ''amos'', ascii ''tendr'' @ [237] @ ascii ''an'',
    ascii ''tendr'' @ [237] @ ascii ''as'', ascii ''tened'', ascii ''tenemos'',
    ascii ''tenga'', ascii ''tengamos'', ascii ''tengan'', ascii ''tengas'', ascii ''tengo'',
    ascii ''teng'' @ [225] @ ascii ''is'', ascii ''tenida'', ascii ''tenidas'',
    ascii ''tenido'', ascii ''tenidos'', ascii ''teniendo'',
    ascii ''ten'' @ [233] @ ascii ''is'', ascii ''ten'' @ [237] @ ascii ''a'',
    ascii ''ten'' @ [237] @ ascii ''ais'', ascii ''ten'' @ [237] @ ascii ''amos'',
    ascii ''ten'' @ [237] @ ascii ''an'', ascii ''ten'' @ [237] @ ascii ''as'', ascii ''ti'',
    ascii ''tiene'', ascii ''tienen'', ascii ''tienes'', ascii ''todo'', ascii ''todos'',
    ascii ''tras'', ascii ''trav'' @ [233] @ ascii ''s'', ascii ''tres'', ascii ''tu'',
    ascii ''tus'', ascii ''tuve'', ascii ''tuviera'', ascii ''tuvierais'', ascii ''tuvieran'',
    ascii ''tuvieras'', ascii ''tuvieron'', ascii ''tuviese'', ascii ''tuvieseis'',
    ascii ''tuviesen'', ascii ''tuvieses'', ascii ''tuvimos'', ascii ''tuviste'',
    ascii ''tuvisteis'', ascii ''tuvi'' @ [233] @ ascii ''ramos'',
    ascii ''tuvi'' @ [233] @ ascii ''semos'', ascii ''tuvo'', ascii ''tuya'', ascii ''tuyas'',
    ascii ''tuyo'', ascii ''tuyos'', ascii ''t'' @ [250], ascii ''un'', ascii ''una'',
    ascii ''uno'', ascii ''unos'', ascii ''veces'', ascii ''ver'', ascii ''vez'',
    ascii ''vosotras'', ascii ''vosotros'', ascii ''vuestra'', ascii ''vuestras'',
    ascii ''vuestro'', ascii ''vuestros'', ascii ''y'', ascii ''ya'', ascii ''yo'',
    [233] @ ascii ''l'', [233] @ ascii ''ramos'']"


section \<open>Library functions: numpy and Python slices\<close>

text \<open>
  \<open>xs[:n]\<close> and \<open>xs[n:]\<close> for any integer \<open>n\<close>: a negative bound counts from the end,
  and a bound out of range is clipped.
\<close>

definition slice_to :: "'a list \<Rightarrow> int \<Rightarrow> 'a list" where
  "slice_to xs n = (if n < 0 then take (nat (int (length xs) + n)) xs else take (nat n) xs)"

definition slice_from :: "'a list \<Rightarrow> int \<Rightarrow> 'a list" where
  "slice_from xs n = (if n < 0 then drop (nat (int (length xs) + n)) xs else drop (nat n) xs)"

text \<open>
  \<open>a.argsort()\<close>: the indices of \<open>a\<close> in ascending order of their values. numpy's default
  sort leaves the order of equal values open; the model takes the stable order, and no
  theorem below depends on how ties fall.
\<close>

definition argsort :: "'a::linorder list \<Rightarrow> nat list" where
  "argsort a = map snd (sort_key fst (zip a [0..<length a]))"

text \<open>
  \<open>np.asarray(m.sum(axis=0)).flatten()\<close> for a matrix given by its rows, with \<open>n\<close> columns.
\<close>

definition sum_axis0 :: "nat \<Rightarrow> nat list list \<Rightarrow> nat list" where
  "sum_axis0 n m = map (\<lambda>j. sum_list (map (\<lambda>row. row ! j) m)) [0..<n]"


section \<open>Library functions: scikit-learn's vectorizers\<close>

datatype py_error = ValueError

text \<open>
  The arguments the module passes to \<open>CountVectorizer\<close> and \<open>TfidfVectorizer\<close>. \<open>max_df\<close> is
  a proportion of the documents (the default is \<open>1.0\<close>); \<open>min_df\<close> is a number of documents.
\<close>

record vectorizer =
  max_features :: nat
  stop_words :: "ustr list"
  min_df :: nat
  max_df :: rat
  ngram_range :: "nat \<times> nat"

text \<open>
  The default \<open>token_pattern\<close>, \<open>(?u)\b\w\w+\b\<close>, with \<open>findall\<close>: the tokens are the
  maximal runs of word characters that are at least two characters long.
\<close>

function tokenize :: "unicode \<Rightarrow> ustr \<Rightarrow> ustr list" where
  "tokenize U [] = []"
| "tokenize U (c # cs) =
     (if is_word U c then
        (if takeWhile (is_word U) cs = [] then [] else [c # takeWhile (is_word U) cs])
          @ tokenize U (dropWhile (is_word U) cs)
      else tokenize U cs)"
  by pat_completeness auto
termination
  by (relation "measure (\<lambda>(U, s). length s)") (auto simp: le_imp_less_Suc length_dropWhile_le)

text \<open>\<open>" ".join(tokens)\<close>.\<close>

fun join_space :: "ustr list \<Rightarrow> ustr" where
  "join_space [] = []"
| "join_space [w] = w"
| "join_space (w # v # ws) = w @ 32 # join_space (v # ws)"

text \<open>
  \<open>_word_ngrams\<close> behind the removal of the stop words: for each \<open>n\<close> of the range, in
  ascending order, the \<open>n\<close>-grams of adjacent tokens joined by one space.
\<close>

definition word_ngrams :: "nat \<times> nat \<Rightarrow> ustr list \<Rightarrow> ustr list" where
  "word_ngrams r toks =
     concat (map (\<lambda>n. map (\<lambda>i. join_space (take n (drop i toks))) [0..<length toks - n + 1])
                 [fst r..<min (snd r + 1) (length toks + 1)])"

text \<open>
  \<open>build_analyzer()\<close> for \<open>analyzer='word'\<close>: lower-case the document, tokenize, drop the
  stop words, form the n-grams. The result is the list of the terms of the document,
  with repetitions.
\<close>

definition analyze :: "unicode \<Rightarrow> vectorizer \<Rightarrow> ustr \<Rightarrow> ustr list" where
  "analyze U V doc =
     word_ngrams (ngram_range V)
       (filter (\<lambda>t. t \<notin> set (stop_words V)) (tokenize U (str_lower U doc)))"

text \<open>
  The document frequency of a term is the number of documents it occurs in, and its
  total count the number of its occurrences in all documents.
\<close>

definition doc_freq :: "ustr list list \<Rightarrow> ustr \<Rightarrow> nat" where
  "doc_freq docs t = length (filter (\<lambda>d. t \<in> set d) docs)"

definition total_count :: "ustr list list \<Rightarrow> ustr \<Rightarrow> nat" where
  "total_count docs t = sum_list (map (\<lambda>d. count_list d t) docs)"

text \<open>
  \<open>_limit_features\<close> on the alphabetically sorted terms: a term stays when its document
  frequency is at least \<open>min_df\<close> and at most \<open>max_df\<close> times the number of documents; when
  more than \<open>max_features\<close> terms stay, the \<open>max_features\<close> terms of the largest total
  count are kept, in their alphabetical order.
\<close>

definition df_in_range :: "vectorizer \<Rightarrow> ustr list list \<Rightarrow> ustr \<Rightarrow> bool" where
  "df_in_range V docs t \<longleftrightarrow>
     of_nat (doc_freq docs t) \<le> max_df V * of_nat (length docs) \<and> min_df V \<le> doc_freq docs t"

definition limit_features :: "vectorizer \<Rightarrow> ustr list list \<Rightarrow> ustr list \<Rightarrow> ustr list" where
  "limit_features V docs terms =
     (let masked = filter (df_in_range V docs) terms in
      if max_features V < length masked then
        map (\<lambda>i. masked ! i)
          (sort (take (max_features V) (argsort (map (\<lambda>t. - int (total_count docs t)) masked))))
      else masked)"

text \<open>
  \<open>fit\<close>: the vocabulary of the documents, that is \<open>get_feature_names_out()\<close>, or the
  \<open>ValueError\<close> that scikit-learn raises when no term is found at all, when \<open>max_df\<close>
  corresponds to fewer documents than \<open>min_df\<close>, or when no term is left after pruning.
\<close>

definition fit :: "unicode \<Rightarrow> vectorizer \<Rightarrow> ustr list \<Rightarrow> py_error + ustr list" where
  "fit U V raw_documents =
     (let docs = map (analyze U V) raw_documents;
          terms = sort (remdups (concat docs))
      in if terms = [] then Inl ValueError
         else if max_df V * of_nat (length raw_documents) < of_nat (min_df V) then Inl ValueError
         else if limit_features V docs terms = [] then Inl ValueError
         else Inr (limit_features V docs terms))"

text \<open>
  \<open>transform\<close>: the count matrix of the documents over a fitted vocabulary, one row for
  each document; and \<open>fit_transform\<close>, which is both on the same documents.
\<close>

definition transform :: "unicode \<Rightarrow> vectorizer \<Rightarrow> ustr list \<Rightarrow> ustr list \<Rightarrow> nat list list" where
  "transform U V feature_names raw_documents =
     map (\<lambda>doc. map (count_list (analyze U V doc)) feature_names) raw_documents"

definition fit_transform ::
  "unicode \<Rightarrow> vectorizer \<Rightarrow> ustr list \<Rightarrow> py_error + ustr list \<times> nat list list" where
  "fit_transform U V raw_documents =
     (case fit U V raw_documents of
        Inl e \<Rightarrow> Inl e
      | Inr feature_names \<Rightarrow> Inr (feature_names, transform U V feature_names raw_documents))"

text \<open>
  \<open>TfidfVectorizer\<close> weighs the counts with the defaults of \<open>TfidfTransformer\<close>: the
  smoothed inverse document frequency \<open>ln ((1 + n) / (1 + df)) + 1\<close>, and each row scaled
  to Euclidean length 1. The weights are floating-point numbers in the program and real
  numbers here.
\<close>

definition idf :: "nat list list \<Rightarrow> nat \<Rightarrow> real" where
  "idf m j = ln ((1 + real (length m)) / (1 + real (length (filter (\<lambda>row. 0 < row ! j) m)))) + 1"

definition l2_normalize :: "real list \<Rightarrow> real list" where
  "l2_normalize v =
     (if sum_list (map (\<lambda>x. x * x) v) = 0 then v
      else map (\<lambda>x. x / sqrt (sum_list (map (\<lambda>x. x * x) v))) v)"

definition tfidf :: "nat \<Rightarrow> nat list list \<Rightarrow> real list list" where
  "tfidf n m = map (\<lambda>row. l2_normalize (map (\<lambda>j. real (row ! j) * idf m j) [0..<n])) m"

text \<open>\<open>np.asarray(tfidf_matrix.mean(axis=0)).flatten()\<close>.\<close>

definition mean_axis0 :: "nat \<Rightarrow> real list list \<Rightarrow> real list" where
  "mean_axis0 n m = map (\<lambda>j. sum_list (map (\<lambda>row. row ! j) m) / real (length m)) [0..<n]"


section \<open>Term ranking: \<open>get_tfidf_by_period\<close>\<close>

text \<open>
  The functions of the module fetch their articles with \<open>query\<close>, from a database outside
  this development; the model starts from the rows that \<open>query\<close> returned, here the
  column \<open>body\<close>, and returns the rows of the data frame.
\<close>

definition tfidf_vectorizer :: vectorizer where
  "tfidf_vectorizer =
     \<lparr> max_features = 1000, stop_words = STOPWORDS_ES, min_df = 5, max_df = 7 / 10,
       ngram_range = (1, 2) \<rparr>"

definition get_tfidf_by_period :: "unicode \<Rightarrow> ustr option list \<Rightarrow> int \<Rightarrow> (ustr \<times> real) list" where
  "get_tfidf_by_period U articles top_n =
     (if length articles = 0 then []
      else
        let texts = map (clean_text U) articles in
        case fit_transform U tfidf_vectorizer texts of
          Inl e \<Rightarrow> []
        | Inr (feature_names, counts) \<Rightarrow>
            let avg_scores = mean_axis0 (length feature_names) (tfidf (length feature_names) counts);
                top_indices = rev (slice_from (argsort avg_scores) (- top_n))
            in map (\<lambda>i. (feature_names ! i, avg_scores ! i)) top_indices)"


section \<open>Emergence detection: \<open>find_emerging_terms\<close>\<close>

definition count_vectorizer :: "nat \<Rightarrow> nat \<times> nat \<Rightarrow> vectorizer" where
  "count_vectorizer cap r =
     \<lparr> max_features = cap, stop_words = STOPWORDS_ES, min_df = 3, max_df = 1, ngram_range = r \<rparr>"

text \<open>
  The three arrays of the function: a count matrix summed over its documents and divided
  by their number, and the smoothed ratio. The constants \<open>0.001\<close> and \<open>0.01\<close> are the
  rationals they denote; the program computes in floating point.
\<close>

definition term_freq :: "nat \<Rightarrow> nat list list \<Rightarrow> rat list" where
  "term_freq n m = map (\<lambda>c. of_nat c / of_nat (length m)) (sum_axis0 n m)"

definition emergence :: "rat list \<Rightarrow> rat list \<Rightarrow> rat list" where
  "emergence target_freq comparison_freq =
     map (\<lambda>(t, c). (t + 1 / 1000) / (c + 1 / 1000)) (zip target_freq comparison_freq)"

record emerging =
  row_term :: ustr
  emergence_score :: rat
  target_freq :: rat
  baseline_freq :: rat

definition find_emerging_terms ::
  "unicode \<Rightarrow> ustr option list \<Rightarrow> ustr option list \<Rightarrow> int \<Rightarrow> emerging list" where
  "find_emerging_terms U target_articles comparison_articles top_n =
     (if length target_articles = 0 \<or> length comparison_articles = 0 then []
      else
        let target_texts = map (clean_text U) target_articles;
            comparison_texts = map (clean_text U) comparison_articles;
            V = count_vectorizer 2000 (1, 2)
        in
        case fit U V (target_texts @ comparison_texts) of
          Inl e \<Rightarrow> []
        | Inr feature_names \<Rightarrow>
            let n = length feature_names;
                tf = term_freq n (transform U V feature_names target_texts);
                cf = term_freq n (transform U V feature_names comparison_texts);
                score = emergence tf cf;
                valid_indices = filter (\<lambda>i. 1 / 100 < tf ! i) [0..<n];
                sorted_indices =
                  slice_to (map (\<lambda>k. valid_indices ! k)
                              (rev (argsort (map (\<lambda>i. score ! i) valid_indices)))) top_n
            in map (\<lambda>i. \<lparr> row_term = feature_names ! i, emergence_score = score ! i,
                            target_freq = tf ! i, baseline_freq = cf ! i \<rparr>) sorted_indices)"


section \<open>Co-occurrence ranking: \<open>find_cooccurrences\<close>\<close>

text \<open>
  \<open>sorted(..., key=..., reverse=True)\<close> is stable: elements of equal key keep their order.
  \<open>term_lower not in name\<close> is the substring test.
\<close>

definition find_cooccurrences ::
  "unicode \<Rightarrow> ustr \<Rightarrow> ustr option list \<Rightarrow> int \<Rightarrow> (ustr \<times> int) list" where
  "find_cooccurrences U search_term articles top_n =
     (if length articles = 0 then []
      else
        let texts = map (clean_text U) articles in
        case fit_transform U (count_vectorizer 500 (1, 1)) texts of
          Inl e \<Rightarrow> []
        | Inr (feature_names, count_matrix) \<Rightarrow>
            let frequencies = sum_axis0 (length feature_names) count_matrix;
                term_lower = str_lower U search_term;
                valid_indices =
                  filter (\<lambda>i. \<not> sublist term_lower (feature_names ! i)) [0..<length feature_names];
                sorted_indices =
                  slice_to (sort_key (\<lambda>i. - int (frequencies ! i)) valid_indices) top_n
            in map (\<lambda>i. (feature_names ! i, int (frequencies ! i))) sorted_indices)"

(*PROOFS*)

section \<open>Properties of \<open>clean_text\<close>\<close>

lemmas eval_defs =
  clean_text_def latin_def lower_char_def url_at_def email_at_def ascii_def sub_digits_def
  is_digit_def sub_special_def is_word_def latin1_word_def accented_def isspace_def strip_def

subsection \<open>Length\<close>

lemma length_sub_urls: "length (sub_urls s) \<le> length s"
proof (induction s rule: sub_urls.induct)
  case 1
  show ?case by simp
next
  case (2 c cs)
  have "length (dropWhile (\<lambda>x. \<not> isspace x) cs) \<le> length cs"
    by (rule length_dropWhile_le)
  with 2 show ?case by (cases "url_at (c # cs)") auto
qed

lemma length_sub_emails: "length (sub_emails s) \<le> length s"
proof (induction s rule: sub_emails.induct)
  case 1
  show ?case by simp
next
  case (2 c cs)
  have "length (dropWhile (\<lambda>x. \<not> isspace x) cs) \<le> length cs"
    by (rule length_dropWhile_le)
  with 2 show ?case by (cases "email_at (c # cs)") auto
qed

lemma length_sub_spaces: "length (sub_spaces s) \<le> length s"
proof (induction s rule: sub_spaces.induct)
  case 1
  show ?case by simp
next
  case (2 c cs)
  have "length (dropWhile isspace cs) \<le> length cs"
    by (rule length_dropWhile_le)
  with 2 show ?case by (cases "isspace c") auto
qed

lemma length_strip: "length (strip s) \<le> length s"
proof -
  have "length (strip s) \<le> length (dropWhile isspace s)"
    unfolding strip_def using length_dropWhile_le [of isspace "rev (dropWhile isspace s)"] by simp
  also have "\<dots> \<le> length s" by (rule length_dropWhile_le)
  finally show ?thesis .
qed

text \<open>Every step behind the lower-casing deletes characters or replaces them one for one.\<close>

lemma length_after_lower:
  "length (strip (sub_spaces (sub_special U (sub_digits U (sub_emails (sub_urls t)))))) \<le> length t"
proof -
  have "length (strip (sub_spaces (sub_special U (sub_digits U (sub_emails (sub_urls t))))))
        \<le> length (sub_spaces (sub_special U (sub_digits U (sub_emails (sub_urls t)))))"
    by (rule length_strip)
  also have "\<dots> \<le> length (sub_special U (sub_digits U (sub_emails (sub_urls t))))"
    by (rule length_sub_spaces)
  also have "\<dots> = length (sub_digits U (sub_emails (sub_urls t)))"
    by (simp add: sub_special_def)
  also have "\<dots> \<le> length (sub_emails (sub_urls t))"
    by (simp add: sub_digits_def)
  also have "\<dots> \<le> length (sub_urls t)" by (rule length_sub_emails)
  also have "\<dots> \<le> length t" by (rule length_sub_urls)
  finally show ?thesis .
qed

text \<open>
  C4, as the code has it. \<open>str.lower()\<close> is the one step that can lengthen a string (the
  capital I with dot above becomes two code points, and the combining dot then becomes a
  space between letters); on every string that lower-casing does not lengthen, the
  normalised text is at most as long as the input.
\<close>

theorem clean_text_length:
  assumes "length (str_lower U s) \<le> length s"
  shows "length (clean_text U (Some s)) \<le> length s"
  using assms length_after_lower [of U "str_lower U s"] by (simp add: clean_text_def)

theorem clean_text_length_witness:
  "length (str_lower latin (ascii ''Hola, Mundo 2024'')) \<le> length (ascii ''Hola, Mundo 2024'') \<and>
   length (clean_text latin (Some (ascii ''Hola, Mundo 2024''))) \<le> length (ascii ''Hola, Mundo 2024'')"
proof -
  have h: "length (str_lower latin (ascii ''Hola, Mundo 2024'')) \<le> length (ascii ''Hola, Mundo 2024'')"
    by (simp add: latin_def lower_char_def ascii_def)
  from clean_text_length [OF h] h show ?thesis by simp
qed

text \<open>
  C4 as stated fails: the two code points U+0130, \<open>a\<close> are normalised to the three code
  points \<open>i\<close>, space, \<open>a\<close>.
\<close>

theorem clean_text_length_counterexample:
  "\<not> length (clean_text latin (Some [304, 97])) \<le> length [304, 97 :: codepoint]"
  by (simp add: eval_defs)

lemma apart_flip: "(\<lambda>x y. apart y x) = apart"
  by (intro ext) (auto simp: apart_def)

subsection \<open>Idempotence\<close>

lemma set_sub_spaces: "set (sub_spaces s) \<subseteq> insert 32 {c \<in> set s. \<not> isspace c}"
proof (induction s rule: sub_spaces.induct)
  case 1
  show ?case by simp
next
  case (2 c cs)
  show ?case
  proof (cases "isspace c")
    case True
    have "set (dropWhile isspace cs) \<subseteq> set cs" by (auto dest: set_dropWhileD)
    with 2 True show ?thesis by auto
  next
    case False
    with 2 show ?thesis by auto
  qed
qed

lemma hd_sub_spaces: "s \<noteq> [] \<Longrightarrow> \<not> isspace (hd s) \<Longrightarrow> hd (sub_spaces s) = hd s \<and> sub_spaces s \<noteq> []"
  by (cases s) auto

lemma succ_sub_spaces: "successively apart (sub_spaces s)"
proof (induction s rule: sub_spaces.induct)
  case 1
  show ?case by simp
next
  case (2 c cs)
  show ?case
  proof (cases "isspace c")
    case True
    let ?d = "dropWhile isspace cs"
    show ?thesis
    proof (cases "?d = []")
      case True
      with \<open>isspace c\<close> have "sub_spaces (c # cs) = [32]"
        by (simp del: dropWhile_eq_Nil_conv)
      then show ?thesis by simp
    next
      case False
      then have "\<not> isspace (hd ?d)" by (rule hd_dropWhile)
      with False have "hd (sub_spaces ?d) = hd ?d \<and> sub_spaces ?d \<noteq> []"
        by (intro hd_sub_spaces)
      with 2 True \<open>\<not> isspace (hd ?d)\<close> show ?thesis
        by (auto simp: successively_Cons apart_def)
    qed
  next
    case False
    with 2 show ?thesis by (auto simp: successively_Cons apart_def)
  qed
qed

lemma compact_sub_spaces: "compact (sub_spaces s)"
  unfolding compact_def using set_sub_spaces [of s] succ_sub_spaces [of s] by auto

lemma sub_spaces_compact: "compact t \<Longrightarrow> sub_spaces t = t"
proof (induction t rule: sub_spaces.induct)
  case 1
  show ?case by simp
next
  case (2 c cs)
  from "2.prems" have rest: "compact cs"
    by (auto simp: compact_def successively_Cons)
  show ?case
  proof (cases "isspace c")
    case True
    with "2.prems" have c: "c = 32" by (simp add: compact_def)
    from "2.prems" True have "cs = [] \<or> \<not> isspace (hd cs)"
      by (auto simp: compact_def successively_Cons apart_def)
    then have d: "dropWhile isspace cs = cs" by (cases cs) auto
    from "2.IH"(1) [OF True] rest d c True show ?thesis by simp
  next
    case False
    with "2.IH"(2) rest show ?thesis by simp
  qed
qed

lemma compact_dropWhile: "compact t \<Longrightarrow> compact (dropWhile P t)"
proof -
  assume c: "compact t"
  have "successively apart (dropWhile P t)"
    using c successively_append_iff [of apart "takeWhile P t" "dropWhile P t"]
    by (simp add: compact_def)
  moreover have "set (dropWhile P t) \<subseteq> set t" by (auto dest: set_dropWhileD)
  ultimately show ?thesis using c by (auto simp: compact_def)
qed

lemma compact_rev: "compact t \<Longrightarrow> compact (rev t)"
  unfolding compact_def successively_rev apart_flip by simp

lemma compact_strip: "compact t \<Longrightarrow> compact (strip t)"
  unfolding strip_def by (intro compact_rev compact_dropWhile)

lemma dropWhile_id: "t = [] \<or> \<not> P (hd t) \<Longrightarrow> dropWhile P t = t"
  by (cases t) auto

lemma strip_strip: "strip (strip s) = strip s"
proof -
  let ?y = "dropWhile isspace s"
  let ?r = "dropWhile isspace (rev ?y)"
  have y: "?y = rev ?r @ rev (takeWhile isspace (rev ?y))"
    by (metis rev_append rev_rev_ident takeWhile_dropWhile_id)
  have "rev ?r = [] \<or> \<not> isspace (hd (rev ?r))"
  proof (cases "rev ?r = []")
    case True
    then show ?thesis by simp
  next
    case False
    then have "hd (rev ?r) = hd ?y" using y by (metis hd_append2)
    moreover from False y have "?y \<noteq> []" by (metis Nil_is_append_conv)
    then have "\<not> isspace (hd ?y)" by (rule hd_dropWhile)
    ultimately show ?thesis by simp
  qed
  then have 1: "dropWhile isspace (rev ?r) = rev ?r" by (rule dropWhile_id)
  have "?r = [] \<or> \<not> isspace (hd ?r)" using hd_dropWhile [of isspace "rev ?y"] by auto
  then have 2: "dropWhile isspace ?r = ?r" by (rule dropWhile_id)
  show ?thesis unfolding strip_def by (simp only: 1 rev_rev_ident 2)
qed

lemma set_strip: "set (strip s) \<subseteq> set s"
  unfolding strip_def by (auto dest!: set_dropWhileD)

lemma sub_emails_id: "64 \<notin> set t \<Longrightarrow> sub_emails t = t"
proof (induction t rule: sub_emails.induct)
  case 1
  show ?case by simp
next
  case (2 c cs)
  from "2.prems" have "64 \<notin> set (butlast (takeWhile (\<lambda>x. \<not> isspace x) cs))"
    by (auto dest!: in_set_butlastD set_takeWhileD)
  then have "\<not> email_at (c # cs)" by (simp add: email_at_def)
  with 2 show ?case by simp
qed


lemma clean_text_chars: "c \<in> set (clean_text U text) \<Longrightarrow> clean_char U c"
proof -
  assume c: "c \<in> set (clean_text U text)"
  then obtain s where s: "text = Some s" "s \<noteq> []"
    by (cases "text") (auto simp: clean_text_def split: if_splits)
  define x where "x = sub_emails (sub_urls (str_lower U s))"
  from c s have "c \<in> set (strip (sub_spaces (sub_special U (sub_digits U x))))"
    by (simp add: clean_text_def x_def)
  then have "c \<in> set (sub_spaces (sub_special U (sub_digits U x)))"
    using set_strip by blast
  then have "c = 32 \<or> (c \<in> set (sub_special U (sub_digits U x)) \<and> \<not> isspace c)"
    using set_sub_spaces by blast
  then show ?thesis
    by (auto simp: clean_char_def sub_special_def sub_digits_def isspace_def)
qed

lemma clean_text_compact: "compact (clean_text U text)"
proof (cases "\<exists>s. text = Some s \<and> s \<noteq> []")
  case True
  then show ?thesis
    by (auto simp: clean_text_def intro!: compact_strip compact_sub_spaces)
next
  case False
  then have "clean_text U text = []"
    by (cases "text") (auto simp: clean_text_def)
  then show ?thesis by (simp add: compact_def)
qed

lemma strip_Nil: "strip [] = []"
  by (simp add: strip_def)

lemma clean_text_stripped: "strip (clean_text U text) = clean_text U text"
  by (cases "text") (auto simp: clean_text_def strip_strip strip_Nil)

lemma sub_urls_shorter: "sub_urls t \<noteq> t \<Longrightarrow> length (sub_urls t) < length t"
proof (induction t rule: sub_urls.induct)
  case 1
  then show ?case by simp
next
  case (2 c cs)
  show ?case
  proof (cases "url_at (c # cs)")
    case True
    have "length (sub_urls (dropWhile (\<lambda>x. \<not> isspace x) cs)) \<le> length (dropWhile (\<lambda>x. \<not> isspace x) cs)"
      by (rule length_sub_urls)
    also have "\<dots> \<le> length cs" by (rule length_dropWhile_le)
    finally show ?thesis using True by simp
  next
    case False
    with 2 show ?thesis by auto
  qed
qed

text \<open>
  C3, as the code has it. A normalised text is a fixed point of every step behind the
  URL removal, so normalising twice gives the same result exactly when the normalised
  text holds no \<open>http\<close> or \<open>www\<close> followed by a further non-space character. (Deleting
  digits can create one: \<open>ht1tpx\<close> becomes \<open>httpx\<close>.) The hypothesis says that the
  normalised text is already in lower case, which CPython's \<open>str.lower()\<close> guarantees.
\<close>

theorem clean_text_idempotent_iff:
  assumes low: "str_lower U (clean_text U text) = clean_text U text"
  shows "clean_text U (Some (clean_text U text)) = clean_text U text
         \<longleftrightarrow> sub_urls (clean_text U text) = clean_text U text"
proof
  let ?t = "clean_text U text"
  assume url: "sub_urls ?t = ?t"
  have ch: "\<forall>c\<in>set ?t. clean_char U c" by (auto intro: clean_text_chars)
  have "clean_char U 64 = False"
    by (simp add: clean_char_def is_word_def latin1_word_def accented_def)
  with ch have "64 \<notin> set ?t" by auto
  then have em: "sub_emails ?t = ?t" by (rule sub_emails_id)
  have "\<not> is_digit U 32" by (simp add: is_digit_def)
  with ch have dg: "sub_digits U ?t = ?t"
    by (auto simp: sub_digits_def clean_char_def intro!: filter_True)
  have "isspace 32" by (simp add: isspace_def)
  with ch have sp: "sub_special U ?t = ?t"
    by (auto simp: sub_special_def clean_char_def intro!: map_idI)
  have ws: "sub_spaces ?t = ?t" by (intro sub_spaces_compact clean_text_compact)
  have st: "strip ?t = ?t" by (rule clean_text_stripped)
  show "clean_text U (Some ?t) = ?t"
    by (simp add: clean_text_def [of U "Some ?t"] low url em dg sp ws st)
next
  let ?t = "clean_text U text"
  assume idem: "clean_text U (Some ?t) = ?t"
  show "sub_urls ?t = ?t"
  proof (rule ccontr)
    assume "sub_urls ?t \<noteq> ?t"
    then have lt: "length (sub_urls ?t) < length ?t" by (rule sub_urls_shorter)
    then have ne: "?t \<noteq> []" by auto
    have "length (clean_text U (Some ?t))
          = length (strip (sub_spaces (sub_special U (sub_digits U (sub_emails (sub_urls ?t))))))"
      using ne by (simp add: clean_text_def [of U "Some ?t"] low)
    also have "\<dots> \<le> length (sub_urls ?t)"
      using length_strip length_sub_spaces length_sub_emails
      by (metis (no_types, lifting) le_trans length_map sub_special_def sub_digits_def length_filter_le)
    finally show False using lt idem by simp
  qed
qed

theorem clean_text_idempotent_iff_witness:
  "str_lower latin (clean_text latin (Some (ascii ''Hola, Mundo 2024''))) = clean_text latin (Some (ascii ''Hola, Mundo 2024'')) \<and>
   sub_urls (clean_text latin (Some (ascii ''Hola, Mundo 2024''))) = clean_text latin (Some (ascii ''Hola, Mundo 2024'')) \<and>
   clean_text latin (Some (clean_text latin (Some (ascii ''Hola, Mundo 2024'')))) = clean_text latin (Some (ascii ''Hola, Mundo 2024''))"
proof -
  have v: "clean_text latin (Some (ascii ''Hola, Mundo 2024'')) = ascii ''hola mundo''"
    by (simp add: eval_defs)
  have low: "str_lower latin (clean_text latin (Some (ascii ''Hola, Mundo 2024''))) = clean_text latin (Some (ascii ''Hola, Mundo 2024''))"
    unfolding v by (simp add: latin_def lower_char_def ascii_def)
  have url: "sub_urls (clean_text latin (Some (ascii ''Hola, Mundo 2024''))) = clean_text latin (Some (ascii ''Hola, Mundo 2024''))"
    unfolding v by (simp add: url_at_def ascii_def)
  from clean_text_idempotent_iff [OF low] url low show ?thesis by simp
qed

text \<open>
  C3 as stated fails: \<open>ht1tpx\<close> is normalised to \<open>httpx\<close>, and \<open>httpx\<close> to the empty
  string.
\<close>

theorem clean_text_idempotent_counterexample:
  "clean_text latin (Some (clean_text latin (Some (ascii ''ht1tpx'')))) \<noteq> clean_text latin (Some (ascii ''ht1tpx''))"
  by (simp add: eval_defs)

section \<open>Properties of the library functions\<close>

lemma length_argsort: "length (argsort a) = length a"
  by (simp add: argsort_def)

lemma set_argsort: "set (argsort a) = {..<length a}"
proof -
  have m: "map snd (zip a [0..<length a]) = [0..<length a]"
    by (rule map_snd_zip) simp
  have "set (argsort a) = snd ` set (sort_key fst (zip a [0..<length a]))"
    by (simp only: argsort_def set_map)
  also have "\<dots> = snd ` set (zip a [0..<length a])"
    by (simp only: set_sort)
  also have "\<dots> = set (map snd (zip a [0..<length a]))"
    by (simp only: set_map)
  also have "\<dots> = {..<length a}"
    by (simp only: m set_upt atLeast0LessThan)
  finally show ?thesis .
qed

lemma map_nth_argsort: "map (\<lambda>i. a ! i) (argsort a) = map fst (sort_key fst (zip a [0..<length a]))"
proof -
  have "\<forall>p\<in>set (sort_key fst (zip a [0..<length a])). a ! snd p = fst p"
    by (auto simp: set_zip)
  then show ?thesis by (simp add: argsort_def)
qed

lemma sorted_argsort: "sorted (map (\<lambda>i. a ! i) (argsort a))"
  unfolding map_nth_argsort by (rule sorted_sort_key)

lemma slice_to_take: "\<exists>k. slice_to xs n = take k xs"
  by (auto simp: slice_to_def)

lemma slice_from_drop: "\<exists>k. slice_from xs n = drop k xs"
  by (auto simp: slice_from_def)

lemma set_slice_to: "set (slice_to xs n) \<subseteq> set xs"
  by (auto simp: slice_to_def dest: in_set_takeD)

lemma set_slice_from: "set (slice_from xs n) \<subseteq> set xs"
  by (auto simp: slice_from_def dest: in_set_dropD)

lemma length_slice_to: "0 \<le> n \<Longrightarrow> int (length (slice_to xs n)) \<le> n"
  by (simp add: slice_to_def)

lemma slice_from_zero: "slice_from xs (- 0) = xs"
  by (simp add: slice_from_def)

lemma length_sum_axis0: "length (sum_axis0 n m) = n"
  by (simp add: sum_axis0_def)

lemma sum_axis0_transform:
  assumes "j < length names"
  shows "sum_axis0 (length names) (transform U V names docs) ! j
         = total_count (map (analyze U V) docs) (names ! j)"
  using assms by (simp add: sum_axis0_def transform_def total_count_def comp_def)

lemma set_limit_features: "set (limit_features V docs terms) \<subseteq> {t \<in> set terms. df_in_range V docs t}"
proof -
  let ?masked = "filter (df_in_range V docs) terms"
  let ?keys = "map (\<lambda>t. - int (total_count docs t)) ?masked"
  have "set (sort (take (max_features V) (argsort ?keys))) \<subseteq> {..<length ?masked}"
    using set_argsort [of ?keys] by (auto dest: in_set_takeD)
  then have "set (map (\<lambda>i. ?masked ! i) (sort (take (max_features V) (argsort ?keys)))) \<subseteq> set ?masked"
    by (auto simp del: set_filter)
  then show ?thesis by (auto simp: limit_features_def Let_def)
qed

lemma fit_Inr:
  assumes "fit U V raw = Inr names"
  shows "names \<noteq> []"
    and "set names \<subseteq> {t \<in> set (concat (map (analyze U V) raw)). df_in_range V (map (analyze U V) raw) t}"
proof -
  let ?docs = "map (analyze U V) raw"
  from assms have n: "names = limit_features V ?docs (sort (remdups (concat ?docs)))"
    and ne: "limit_features V ?docs (sort (remdups (concat ?docs))) \<noteq> []"
    by (auto simp: fit_def Let_def split: if_splits)
  from n ne show "names \<noteq> []" by simp
  from set_limit_features [of V ?docs "sort (remdups (concat ?docs))"] n
  show "set names \<subseteq> {t \<in> set (concat ?docs). df_in_range V ?docs t}"
    by auto
qed

lemma fit_transform_Inr:
  "fit_transform U V raw = Inr (names, m) \<longleftrightarrow> fit U V raw = Inr names \<and> m = transform U V names raw"
  by (auto simp: fit_transform_def split: sum.splits)

lemma fit_transform_Inl:
  "fit_transform U V raw = Inl e \<longleftrightarrow> fit U V raw = Inl e"
  by (auto simp: fit_transform_def split: sum.splits)

section \<open>Properties of the ranking functions\<close>

lemma sorted_desc_rev: "sorted xs \<Longrightarrow> sorted_wrt (\<ge>) (rev xs)"
  by (simp add: sorted_wrt_rev)

lemma sorted_desc_slice_to: "sorted_wrt (\<ge>) xs \<Longrightarrow> sorted_wrt (\<ge>) (slice_to xs n)"
  by (auto simp: slice_to_def intro: sorted_wrt_take)

lemma sorted_desc_slice_from: "sorted_wrt (\<ge>) xs \<Longrightarrow> sorted_wrt (\<ge>) (slice_from xs n)"
  by (auto simp: slice_from_def intro: sorted_wrt_drop)

lemma map_slice_to: "map f (slice_to xs n) = slice_to (map f xs) n"
  by (simp add: slice_to_def take_map)

lemma map_slice_from: "map f (slice_from xs n) = slice_from (map f xs) n"
  by (simp add: slice_from_def drop_map)

subsection \<open>\<open>get_tfidf_by_period\<close>\<close>

lemma get_tfidf_by_period_Inr:
  assumes "articles \<noteq> []"
    and "fit_transform U tfidf_vectorizer (map (clean_text U) articles) = Inr (names, counts)"
  shows "get_tfidf_by_period U articles top_n =
           map (\<lambda>i. (names ! i, mean_axis0 (length names) (tfidf (length names) counts) ! i))
             (rev (slice_from (argsort (mean_axis0 (length names) (tfidf (length names) counts))) (- top_n)))"
  using assms by (simp add: get_tfidf_by_period_def Let_def)

lemma get_tfidf_by_period_Inl:
  assumes "fit_transform U tfidf_vectorizer (map (clean_text U) articles) = Inl e"
  shows "get_tfidf_by_period U articles top_n = []"
  using assms by (simp add: get_tfidf_by_period_def Let_def)

lemma length_mean_axis0: "length (mean_axis0 n m) = n"
  by (simp add: mean_axis0_def)


lemma tfidf_terms:
  assumes "(t, w) \<in> set (get_tfidf_by_period U articles top_n)"
  shows "\<exists>names. fit U tfidf_vectorizer (map (clean_text U) articles) = Inr names \<and> t \<in> set names"
proof (cases "fit_transform U tfidf_vectorizer (map (clean_text U) articles)")
  case (Inl e)
  then have "get_tfidf_by_period U articles top_n = []" by (rule get_tfidf_by_period_Inl)
  with assms show ?thesis by simp
next
  case (Inr p)
  obtain names counts where p: "p = (names, counts)" by (cases p)
  have ne: "articles \<noteq> []"
  proof
    assume "articles = []"
    then have "get_tfidf_by_period U articles top_n = []" by (simp add: get_tfidf_by_period_def)
    with assms show False by simp
  qed
  let ?avg = "mean_axis0 (length names) (tfidf (length names) counts)"
  have out: "get_tfidf_by_period U articles top_n =
      map (\<lambda>i. (names ! i, ?avg ! i)) (rev (slice_from (argsort ?avg) (- top_n)))"
    using ne Inr unfolding p by (rule get_tfidf_by_period_Inr)
  from assms have "(t, w) \<in> (\<lambda>i. (names ! i, ?avg ! i)) ` set (rev (slice_from (argsort ?avg) (- top_n)))"
    by (simp only: out set_map)
  then obtain i where i: "i \<in> set (rev (slice_from (argsort ?avg) (- top_n)))"
    and tw: "(t, w) = (names ! i, ?avg ! i)" by (rule imageE)
  from i have "i \<in> set (slice_from (argsort ?avg) (- top_n))" by (simp only: set_rev)
  then have "i \<in> set (argsort ?avg)" by (rule set_slice_from [THEN subsetD])
  then have "i < length names" by (simp only: set_argsort length_mean_axis0 lessThan_iff)
  with tw have "t \<in> set names" by simp
  moreover from Inr p have "fit U tfidf_vectorizer (map (clean_text U) articles) = Inr names"
    by (simp only: fit_transform_Inr)
  ultimately show ?thesis by blast
qed

lemma tfidf_terms_df:
  assumes "(t, w) \<in> set (get_tfidf_by_period U articles top_n)"
  shows "5 \<le> doc_freq (map (analyze U tfidf_vectorizer) (map (clean_text U) articles)) t
       \<and> 10 * doc_freq (map (analyze U tfidf_vectorizer) (map (clean_text U) articles)) t
           \<le> 7 * length articles"
proof -
  let ?docs = "map (analyze U tfidf_vectorizer) (map (clean_text U) articles)"
  from tfidf_terms [OF assms] obtain names
    where f: "fit U tfidf_vectorizer (map (clean_text U) articles) = Inr names" and t: "t \<in> set names"
    by blast
  from fit_Inr(2) [OF f] t have r: "df_in_range tfidf_vectorizer ?docs t" by auto
  then have "5 \<le> doc_freq ?docs t" by (simp add: df_in_range_def tfidf_vectorizer_def)
  moreover from r have "(of_nat (doc_freq ?docs t) :: rat) \<le> 7 / 10 * of_nat (length articles)"
    by (simp add: df_in_range_def tfidf_vectorizer_def)
  then have "(of_nat (10 * doc_freq ?docs t) :: rat) \<le> of_nat (7 * length articles)"
    by simp
  then have "10 * doc_freq ?docs t \<le> 7 * length articles"
    by (simp only: of_nat_le_iff)
  ultimately show ?thesis by simp
qed

end
